theory Spec2Isabelle
  imports Complex_Main
begin

section \<open>Civil time: datetime, time, timedelta\<close>

text \<open>
  The calendar code works on Python \<^verbatim>\<open>datetime\<close> values in a store's local civil time.
  A \<^verbatim>\<open>datetime\<close> is modelled by the number of microseconds since the midnight that
  begins proleptic Gregorian day number 0, so that \<^verbatim>\<open>d.toordinal()\<close> is the quotient by
  the length of a day and the time-of-day fields are read off the remainder. Every value
  of the type is a well-formed timestamp, as every Python \<^verbatim>\<open>datetime\<close> is. A
  \<^verbatim>\<open>timedelta\<close> is a number of microseconds, and \<^verbatim>\<open>total_seconds()\<close> is taken to be
  exact (the binary rounding of Python floats is outside this model).

  All timestamps of one computation are taken to carry the same UTC offset, so comparing
  and subtracting them is comparing and subtracting their civil fields. The range limits
  of \<^verbatim>\<open>datetime\<close> (years 1 to 9999) are not modelled.
\<close>

type_synonym datetime = int
type_synonym timedelta = int

abbreviation US_PER_SECOND :: int where
  "US_PER_SECOND \<equiv> 1000000"

abbreviation US_PER_DAY :: int where
  "US_PER_DAY \<equiv> 86400000000"

text \<open>\<^verbatim>\<open>datetime.time\<close>: four fields, compared as the tuple (hour, minute, second, microsecond).\<close>

record time =
  hour :: nat
  minute :: nat
  second :: nat
  microsecond :: nat

definition time_hms :: "nat \<Rightarrow> nat \<Rightarrow> nat \<Rightarrow> time" where
  "time_hms h m s = \<lparr>hour = h, minute = m, second = s, microsecond = 0\<rparr>"

definition time_lt :: "time \<Rightarrow> time \<Rightarrow> bool" where
  "time_lt a b =
     (hour a < hour b \<or> (hour a = hour b \<and>
       (minute a < minute b \<or> (minute a = minute b \<and>
         (second a < second b \<or> (second a = second b \<and> microsecond a < microsecond b))))))"

definition time_le :: "time \<Rightarrow> time \<Rightarrow> bool" where
  "time_le a b =
     (hour a < hour b \<or> (hour a = hour b \<and>
       (minute a < minute b \<or> (minute a = minute b \<and>
         (second a < second b \<or> (second a = second b \<and> microsecond a \<le> microsecond b))))))"

definition valid_time :: "time \<Rightarrow> bool" where
  "valid_time t = (hour t < 24 \<and> minute t < 60 \<and> second t < 60 \<and> microsecond t < 1000000)"

definition toordinal :: "datetime \<Rightarrow> int" where
  "toordinal d = d div US_PER_DAY"

text \<open>\<^verbatim>\<open>weekday()\<close>: Monday is 0, Sunday is 6; day number 1 is a Monday.\<close>

definition weekday :: "datetime \<Rightarrow> int" where
  "weekday d = (toordinal d + 6) mod 7"

text \<open>\<^verbatim>\<open>d.time()\<close>: the time-of-day fields of a timestamp.\<close>

definition time_of :: "datetime \<Rightarrow> time" where
  "time_of d =
     \<lparr>hour = nat ((d mod US_PER_DAY) div 3600000000),
      minute = nat ((d mod 3600000000) div 60000000),
      second = nat ((d mod 60000000) div US_PER_SECOND),
      microsecond = nat (d mod US_PER_SECOND)\<rparr>"

text \<open>Offset of a time of day from midnight, in microseconds.\<close>

definition offset_us :: "nat \<Rightarrow> nat \<Rightarrow> nat \<Rightarrow> nat \<Rightarrow> int" where
  "offset_us h m s us = ((int h * 60 + int m) * 60 + int s) * US_PER_SECOND + int us"

text \<open>\<^verbatim>\<open>d.replace(hour=h, minute=m, second=s, microsecond=us)\<close>: same date, new time of day.\<close>

definition replace_time :: "datetime \<Rightarrow> nat \<Rightarrow> nat \<Rightarrow> nat \<Rightarrow> nat \<Rightarrow> datetime" where
  "replace_time d h m s us = toordinal d * US_PER_DAY + offset_us h m s us"

text \<open>The timestamp on day number \<open>n\<close> at the given time of day.\<close>

definition datetime_at :: "int \<Rightarrow> nat \<Rightarrow> nat \<Rightarrow> nat \<Rightarrow> nat \<Rightarrow> datetime" where
  "datetime_at n h m s us = n * US_PER_DAY + offset_us h m s us"

text \<open>
  \<^verbatim>\<open>int(td.total_seconds())\<close>: whole seconds of a duration, truncated towards zero.
\<close>

definition int_total_seconds :: "timedelta \<Rightarrow> int" where
  "int_total_seconds td = (if 0 \<le> td then td div US_PER_SECOND else - ((- td) div US_PER_SECOND))"

section \<open>Weekly calendars and the open test\<close>

text \<open>
  \<^verbatim>\<open>Dict[int, Tuple[time, time]]\<close>: at most one (open, close) pair per weekday. A pair with
  open later than close is an overnight interval.
\<close>

type_synonym calendar = "int \<rightharpoonup> time \<times> time"

definition valid_calendar :: "calendar \<Rightarrow> bool" where
  "valid_calendar business_hours =
     (\<forall>d s e. business_hours d = Some (s, e) \<longrightarrow> valid_time s \<and> valid_time e)"

definition is_within_business_hours_enhanced :: "datetime \<Rightarrow> calendar \<Rightarrow> bool" where
  "is_within_business_hours_enhanced local_timestamp business_hours =
     (let day_of_week = weekday local_timestamp;
          current_time = time_of local_timestamp;
          today =
            (case business_hours day_of_week of
               None \<Rightarrow> False
             | Some (start_time, end_time) \<Rightarrow>
                 if time_le start_time end_time
                 then time_le start_time current_time \<and> time_le current_time end_time
                 else time_le start_time current_time \<or> time_le current_time end_time);
          prev_day = (day_of_week - 1) mod 7;
          carried =
            (case business_hours prev_day of
               None \<Rightarrow> False
             | Some (prev_start, prev_end) \<Rightarrow>
                 time_lt prev_end prev_start \<and> time_le current_time prev_end)
      in today \<or> carried)"

section \<open>Business seconds, walked day by day\<close>

text \<open>
  One iteration of the loop of \<^verbatim>\<open>_calculate_business_seconds_between\<close>: the overlap of
  the current day's open interval with the rest of the span is added to the running
  total. An overnight interval ends on the next day.
\<close>

definition business_seconds_step :: "datetime \<Rightarrow> calendar \<Rightarrow> datetime \<Rightarrow> timedelta \<Rightarrow> timedelta" where
  "business_seconds_step end_time business_hours current_time total_seconds =
     (case business_hours (weekday current_time) of
        None \<Rightarrow> total_seconds
      | Some (start_business, end_business) \<Rightarrow>
          (let business_start = replace_time current_time
                 (hour start_business) (minute start_business) (second start_business) 0;
               business_end0 = replace_time current_time
                 (hour end_business) (minute end_business) (second end_business) 0;
               business_end = (if time_lt end_business start_business
                               then business_end0 + US_PER_DAY else business_end0);
               period_start = max current_time business_start;
               period_end = min end_time business_end
           in if period_start < period_end
              then total_seconds + (period_end - period_start)
              else total_seconds))"

lemma next_midnight_after: "d < replace_time (d + US_PER_DAY) 0 0 0 0"
proof -
  have "(d + US_PER_DAY) div US_PER_DAY = d div US_PER_DAY + 1"
    by simp
  moreover have "d = (d div US_PER_DAY) * US_PER_DAY + d mod US_PER_DAY"
    by simp
  moreover have "d mod US_PER_DAY < US_PER_DAY"
    by simp
  ultimately show ?thesis
    unfolding replace_time_def toordinal_def offset_us_def
    by (simp add: algebra_simps)
qed

function business_seconds_loop :: "datetime \<Rightarrow> calendar \<Rightarrow> datetime \<Rightarrow> timedelta \<Rightarrow> timedelta" where
  "business_seconds_loop end_time business_hours current_time total_seconds =
     (if current_time < end_time
      then business_seconds_loop end_time business_hours
             (replace_time (current_time + US_PER_DAY) 0 0 0 0)
             (business_seconds_step end_time business_hours current_time total_seconds)
      else total_seconds)"
  by pat_completeness auto
termination
proof (relation "measure (\<lambda>(end_time, business_hours, current_time, total_seconds).
                    nat (end_time - current_time))")
  show "wf (measure (\<lambda>(end_time :: datetime, business_hours :: calendar,
                        current_time :: datetime, total_seconds :: timedelta).
                    nat (end_time - current_time)))"
    by simp
next
  fix end_time :: datetime and business_hours :: calendar
    and current_time :: datetime and total_seconds :: timedelta
  assume "current_time < end_time"
  moreover have "current_time < replace_time (current_time + US_PER_DAY) 0 0 0 0"
    by (rule next_midnight_after)
  ultimately show "((end_time, business_hours,
            replace_time (current_time + US_PER_DAY) 0 0 0 0,
            business_seconds_step end_time business_hours current_time total_seconds),
           (end_time, business_hours, current_time, total_seconds))
        \<in> measure (\<lambda>(end_time, business_hours, current_time, total_seconds).
                    nat (end_time - current_time))"
    by simp
qed

declare business_seconds_loop.simps [simp del]

definition calculate_business_seconds_between :: "datetime \<Rightarrow> datetime \<Rightarrow> calendar \<Rightarrow> int" where
  "calculate_business_seconds_between start_time end_time business_hours =
     (if start_time \<ge> end_time then 0
      else int_total_seconds (business_seconds_loop end_time business_hours start_time 0))"

text \<open>
  \<^verbatim>\<open>_calculate_total_business_seconds\<close>: both bounds are converted to local time first.
  The conversion under the store's zone is the parameter \<open>to_local\<close>.
\<close>

definition calculate_total_business_seconds ::
    "(datetime \<Rightarrow> datetime) \<Rightarrow> datetime \<Rightarrow> datetime \<Rightarrow> calendar \<Rightarrow> int" where
  "calculate_total_business_seconds to_local start_time end_time business_hours =
     calculate_business_seconds_between (to_local start_time) (to_local end_time) business_hours"

section \<open>Business seconds, from the list of open intervals\<close>






section \<open>Interpolation of uptime and downtime\<close>

text \<open>
  A polled status in the store's table, and the same observation after conversion to
  local time (the dictionaries built in \<^verbatim>\<open>_calculate_period_metrics\<close>).
\<close>

record store_status =
  store_id :: string
  timestamp_utc :: datetime
  status :: string

record observation =
  timestamp :: datetime
  status :: string
  utc_timestamp :: datetime

record metrics =
  uptime :: int
  downtime :: int

text \<open>
  The body of the loop over \<^verbatim>\<open>range(len(status_data))\<close>. Index \<open>i\<close> is always below the
  length of the list, and \<open>i - 1\<close> is read only when \<open>i\<close> is positive.
\<close>

definition interpolate_step ::
    "calendar \<Rightarrow> datetime \<Rightarrow> observation list \<Rightarrow> nat \<Rightarrow> metrics \<Rightarrow> metrics" where
  "interpolate_step business_hours local_start status_data i totals =
     (let current_obs = status_data ! i;
          period_start = (if i = 0 then local_start else timestamp (status_data ! (i - 1)));
          period_end = timestamp current_obs;
          business_seconds =
            calculate_business_seconds_between period_start period_end business_hours;
          st = (if i = 0 then observation.status current_obs
                else observation.status (status_data ! (i - 1)))
      in if st = ''active''
         then totals\<lparr>uptime := uptime totals + business_seconds\<rparr>
         else totals\<lparr>downtime := downtime totals + business_seconds\<rparr>)"

definition interpolate_uptime_downtime ::
    "(datetime \<Rightarrow> datetime) \<Rightarrow> observation list \<Rightarrow> datetime \<Rightarrow> datetime \<Rightarrow> calendar \<Rightarrow> metrics" where
  "interpolate_uptime_downtime to_local status_data start_time end_time business_hours =
     (let local_start = to_local start_time;
          local_end = to_local end_time
      in if length status_data = 1
         then
           (let obs = status_data ! 0;
                business_seconds_before =
                  calculate_business_seconds_between local_start (timestamp obs) business_hours;
                business_seconds_after =
                  calculate_business_seconds_between (timestamp obs) local_end business_hours
            in if observation.status obs = ''active''
               then \<lparr>uptime = business_seconds_before + business_seconds_after, downtime = 0\<rparr>
               else \<lparr>uptime = 0, downtime = business_seconds_before + business_seconds_after\<rparr>)
         else
           (let totals = fold (interpolate_step business_hours local_start status_data)
                           [0..<length status_data] \<lparr>uptime = 0, downtime = 0\<rparr>
            in if status_data \<noteq> []
               then
                 (let last_obs = last status_data;
                      business_seconds =
                        calculate_business_seconds_between (timestamp last_obs) local_end
                          business_hours
                  in if observation.status last_obs = ''active''
                     then totals\<lparr>uptime := uptime totals + business_seconds\<rparr>
                     else totals\<lparr>downtime := downtime totals + business_seconds\<rparr>)
               else totals))"

text \<open>
  \<^verbatim>\<open>get_store_status_in_range\<close>: the rows of one store inside the UTC window, bounds
  included, ordered by timestamp.
\<close>

definition get_store_status_in_range ::
    "store_status list \<Rightarrow> string \<Rightarrow> datetime \<Rightarrow> datetime \<Rightarrow> store_status list" where
  "get_store_status_in_range table sid start_time end_time =
     sort_key timestamp_utc
       (filter (\<lambda>r. store_id r = sid \<and> timestamp_utc r \<ge> start_time
                     \<and> timestamp_utc r \<le> end_time) table)"

text \<open>
  The observations \<^verbatim>\<open>_calculate_period_metrics\<close> keeps: converted to local time,
  restricted to open instants, sorted by local timestamp (Python's sort is stable, as
  \<open>sort_key\<close> is).
\<close>

definition local_status_data ::
    "(datetime \<Rightarrow> datetime) \<Rightarrow> store_status list \<Rightarrow> calendar \<Rightarrow> observation list" where
  "local_status_data to_local status_data business_hours =
     map (\<lambda>r. \<lparr>timestamp = to_local (timestamp_utc r), status = store_status.status r,
                utc_timestamp = timestamp_utc r\<rparr>)
       (filter (\<lambda>r. is_within_business_hours_enhanced (to_local (timestamp_utc r)) business_hours)
          status_data)"

definition calculate_period_metrics ::
    "(datetime \<Rightarrow> datetime) \<Rightarrow> store_status list \<Rightarrow> string \<Rightarrow> datetime \<Rightarrow> datetime
      \<Rightarrow> calendar \<Rightarrow> metrics" where
  "calculate_period_metrics to_local table sid start_time end_time business_hours =
     (let status_data = get_store_status_in_range table sid start_time end_time
      in if status_data = []
         then \<lparr>uptime = 0,
               downtime = calculate_total_business_seconds to_local start_time end_time
                            business_hours\<rparr>
         else
           (let kept = local_status_data to_local status_data business_hours
            in if kept = []
               then \<lparr>uptime = 0,
                     downtime = calculate_total_business_seconds to_local start_time end_time
                                  business_hours\<rparr>
               else interpolate_uptime_downtime to_local (sort_key timestamp kept)
                      start_time end_time business_hours))"

section \<open>Forward fill, as the specification words it\<close>

text \<open>
  The specification attributes every gap of the span to a state: with no observation
  the whole span is closed; otherwise the gap before the first observation takes the
  first observation's state, every gap between two observations takes the earlier one's
  state, and the gap after the last observation takes the last one's state. Each gap
  weighs its business seconds.
\<close>

fun spec_inner_gaps :: "observation list \<Rightarrow> datetime \<Rightarrow> (datetime \<times> datetime \<times> bool) list" where
  "spec_inner_gaps [] local_end = []"
| "spec_inner_gaps [x] local_end =
     [(timestamp x, local_end, observation.status x = ''active'')]"
| "spec_inner_gaps (x # y # rest) local_end =
     (timestamp x, timestamp y, observation.status x = ''active'')
       # spec_inner_gaps (y # rest) local_end"

fun spec_gaps ::
    "datetime \<Rightarrow> datetime \<Rightarrow> observation list \<Rightarrow> (datetime \<times> datetime \<times> bool) list" where
  "spec_gaps local_start local_end [] = [(local_start, local_end, False)]"
| "spec_gaps local_start local_end (x # rest) =
     (local_start, timestamp x, observation.status x = ''active'')
       # spec_inner_gaps (x # rest) local_end"

definition spec_forward_fill ::
    "datetime \<Rightarrow> datetime \<Rightarrow> calendar \<Rightarrow> observation list \<Rightarrow> metrics" where
  "spec_forward_fill local_start local_end business_hours obs =
     \<lparr>uptime = (\<Sum>(a, b, open) \<leftarrow> spec_gaps local_start local_end obs.
                  if open then calculate_business_seconds_between a b business_hours else 0),
      downtime = (\<Sum>(a, b, open) \<leftarrow> spec_gaps local_start local_end obs.
                  if open then 0 else calculate_business_seconds_between a b business_hours)\<rparr>"

section \<open>Calendars and time zones of a store\<close>

text \<open>
  Exceptions are values. \<open>ValueError\<close> is the one the code raises itself; \<open>Failure\<close>
  stands for any other \<^verbatim>\<open>Exception\<close> raised by a collaborator (the database session,
  the CSV exporter, pytz).
\<close>

datatype exn = ValueError string | Failure string

record business_hours_row =
  store_id :: string
  day_of_week :: int
  start_time_local :: string
  end_time_local :: string










section \<open>The report job\<close>

record report_row =
  store_id :: string
  uptime_last_hour :: real
  uptime_last_day :: real
  uptime_last_week :: real
  downtime_last_hour :: real
  downtime_last_day :: real
  downtime_last_week :: real

record report_status =
  report_id :: string
  status :: string
  created_at :: datetime
  completed_at :: "datetime option"
  file_path :: "string option"

text \<open>
  What the job calls into: the processor's queries, the metrics of one store
  (\<^verbatim>\<open>_calculate_store_metrics\<close>, which reads the database and may raise), the CSV
  exporter, the clock, and the session's \<^verbatim>\<open>commit\<close> of a changed status row (\<open>None\<close> when it
  succeeds).
\<close>

record collaborators =
  get_max_timestamp :: "exn + datetime"
  get_all_store_ids :: "exn + string list"
  calculate_store_metrics ::
    "string \<Rightarrow> datetime \<Rightarrow> datetime \<Rightarrow> datetime \<Rightarrow> datetime \<Rightarrow> exn + report_row"
  export_to_csv :: "report_row list \<Rightarrow> string \<Rightarrow> exn + string"
  utcnow :: datetime
  commit :: "report_status \<Rightarrow> exn option"

text \<open>
  The status table keeps, for every report, each committed version of its row, newest
  last, so that the lifecycle of a job can be read off. A query returns the newest.
\<close>

type_synonym report_table = "string \<rightharpoonup> report_status list"

definition query_report_status :: "report_table \<Rightarrow> string \<Rightarrow> report_status option" where
  "query_report_status db rid =
     (case db rid of None \<Rightarrow> None | Some versions \<Rightarrow> if versions = [] then None else Some (last versions))"

text \<open>A successful commit of the row held under the identifier \<open>rid\<close>.\<close>

definition commit_row :: "report_table \<Rightarrow> string \<Rightarrow> report_status \<Rightarrow> report_table" where
  "commit_row db rid row =
     db(rid \<mapsto> (case db rid of None \<Rightarrow> [] | Some versions \<Rightarrow> versions) @ [row])"

definition default_row :: "string \<Rightarrow> report_row" where
  "default_row sid =
     \<lparr>store_id = sid, uptime_last_hour = 0, uptime_last_day = 0, uptime_last_week = 0,
      downtime_last_hour = 0, downtime_last_day = 0, downtime_last_week = 0\<rparr>"

text \<open>The loop over the stores: a row per store, the default row where the metrics raise.\<close>

definition collect_report_data ::
    "collaborators \<Rightarrow> string list \<Rightarrow> datetime \<Rightarrow> report_row list" where
  "collect_report_data env store_ids current_time =
     (let one_hour_ago = current_time - 3600 * US_PER_SECOND;
          one_day_ago = current_time - US_PER_DAY;
          one_week_ago = current_time - 7 * US_PER_DAY
      in fold (\<lambda>sid report_data.
                 case calculate_store_metrics env sid current_time one_hour_ago one_day_ago
                        one_week_ago of
                   Inr store_report \<Rightarrow> report_data @ [store_report]
                 | Inl e \<Rightarrow> report_data @ [default_row sid])
           store_ids [])"

text \<open>
  The handler of the job: the row is marked failed and committed, and the exception is
  raised again (a failing commit replaces it).
\<close>

definition mark_failed ::
    "collaborators \<Rightarrow> report_table \<Rightarrow> string \<Rightarrow> report_status \<Rightarrow> exn
      \<Rightarrow> report_table \<times> exn option" where
  "mark_failed env db rid report_status e =
     (let failed = report_status\<lparr>report_status.status := ''Failed''\<rparr>
      in case commit env failed of
           None \<Rightarrow> (commit_row db rid failed, Some e)
         | Some e' \<Rightarrow> (db, Some e'))"

text \<open>
  \<^verbatim>\<open>generate_report_async\<close>: the status table after the run, and the exception that leaves
  the function, if any.
\<close>

definition generate_report_async ::
    "collaborators \<Rightarrow> report_table \<Rightarrow> string \<Rightarrow> report_table \<times> exn option" where
  "generate_report_async env db rid =
     (case query_report_status db rid of
        None \<Rightarrow> (db, Some (ValueError (''Report '' @ rid @ '' not found'')))
      | Some report_status \<Rightarrow>
          (case get_max_timestamp env of
             Inl e \<Rightarrow> mark_failed env db rid report_status e
           | Inr current_time \<Rightarrow>
               (case get_all_store_ids env of
                  Inl e \<Rightarrow> mark_failed env db rid report_status e
                | Inr store_ids \<Rightarrow>
                    (case export_to_csv env (collect_report_data env store_ids current_time) rid of
                       Inl e \<Rightarrow> mark_failed env db rid report_status e
                     | Inr csv_path \<Rightarrow>
                         (let complete = report_status
                                \<lparr>report_status.status := ''Complete'',
                                 completed_at := Some (utcnow env),
                                 file_path := Some csv_path\<rparr>
                          in case commit env complete of
                               None \<Rightarrow> (commit_row db rid complete, None)
                             | Some e \<Rightarrow> mark_failed env db rid complete e)))))"

text \<open>
  \<^verbatim>\<open>trigger_report\<close> creates the row of a new report in state Running; the background
  thread then runs \<^verbatim>\<open>generate_report_async\<close> once for it, its exception logged and dropped
  (\<^verbatim>\<open>_generate_report_background\<close>). When the first commit fails no thread is started.
\<close>

definition trigger_report :: "collaborators \<Rightarrow> report_table \<Rightarrow> string \<Rightarrow> exn + report_table" where
  "trigger_report env db rid =
     (let report_status = \<lparr>report_id = rid, status = ''Running'', created_at = utcnow env,
                             completed_at = None, file_path = None\<rparr>
      in case commit env report_status of
           None \<Rightarrow> Inr (commit_row db rid report_status)
         | Some e \<Rightarrow> Inl e)"

definition run_job :: "collaborators \<Rightarrow> report_table \<Rightarrow> string \<Rightarrow> report_table" where
  "run_job env db rid =
     (case trigger_report env db rid of
        Inl e \<Rightarrow> db
      | Inr db' \<Rightarrow> fst (generate_report_async env db' rid))"

text \<open>The statuses a report's row has gone through, oldest first.\<close>

definition status_history :: "report_table \<Rightarrow> string \<Rightarrow> string list" where
  "status_history db rid =
     (case db rid of None \<Rightarrow> [] | Some versions \<Rightarrow> map report_status.status versions)"

section \<open>Conditions on calendars and interval lists\<close>

text \<open>The offset from midnight that \<^verbatim>\<open>replace\<close> reads off a calendar time (to the second).\<close>

definition hms_us :: "time \<Rightarrow> int" where
  "hms_us t = offset_us (hour t) (minute t) (second t) 0"

text \<open>No weekday has an overnight interval.\<close>

definition no_overnight :: "calendar \<Rightarrow> bool" where
  "no_overnight business_hours =
     (\<forall>d s e. business_hours d = Some (s, e) \<longrightarrow> time_le s e)"





section \<open>Properties of the open test\<close>

lemma not_time_le_iff: "(\<not> time_le a b) = time_lt b a"
  by (auto simp: time_le_def time_lt_def)

text \<open>
  C4. A local timestamp is open exactly when its weekday has a normal interval that
  contains its time of day (bounds included), or its weekday has an overnight interval
  and the time of day is at or after the opening or at or before the closing, or the
  previous weekday has an overnight interval and the time of day is at or before that
  interval's closing. With Monday 22:00 to 06:00 as the only entry, Monday 23:30 and
  Tuesday 03:30 are open and Tuesday 08:30 is closed (2024-01-15, day number 738900, is
  a Monday).
\<close>

theorem is_within_business_hours_enhanced_iff:
  "is_within_business_hours_enhanced ts cal =
     ((\<exists>s e. cal (weekday ts) = Some (s, e) \<and> time_le s e
          \<and> time_le s (time_of ts) \<and> time_le (time_of ts) e)
      \<or> (\<exists>s e. cal (weekday ts) = Some (s, e) \<and> time_lt e s
          \<and> (time_le s (time_of ts) \<or> time_le (time_of ts) e))
      \<or> (\<exists>s e. cal ((weekday ts - 1) mod 7) = Some (s, e) \<and> time_lt e s
          \<and> time_le (time_of ts) e))
   \<and> is_within_business_hours_enhanced (datetime_at 738900 23 30 0 0)
        [0 \<mapsto> (time_hms 22 0 0, time_hms 6 0 0)]
   \<and> is_within_business_hours_enhanced (datetime_at 738901 3 30 0 0)
        [0 \<mapsto> (time_hms 22 0 0, time_hms 6 0 0)]
   \<and> \<not> is_within_business_hours_enhanced (datetime_at 738901 8 30 0 0)
        [0 \<mapsto> (time_hms 22 0 0, time_hms 6 0 0)]"
proof -
  have general: "is_within_business_hours_enhanced ts cal =
     ((\<exists>s e. cal (weekday ts) = Some (s, e) \<and> time_le s e
          \<and> time_le s (time_of ts) \<and> time_le (time_of ts) e)
      \<or> (\<exists>s e. cal (weekday ts) = Some (s, e) \<and> time_lt e s
          \<and> (time_le s (time_of ts) \<or> time_le (time_of ts) e))
      \<or> (\<exists>s e. cal ((weekday ts - 1) mod 7) = Some (s, e) \<and> time_lt e s
          \<and> time_le (time_of ts) e))"
    unfolding is_within_business_hours_enhanced_def Let_def
    by (cases "cal (weekday ts)"; cases "cal ((weekday ts - 1) mod 7)")
       (auto simp: not_time_le_iff [symmetric])
  have monday_late: "is_within_business_hours_enhanced (datetime_at 738900 23 30 0 0)
        [0 \<mapsto> (time_hms 22 0 0, time_hms 6 0 0)]"
    by (simp add: is_within_business_hours_enhanced_def datetime_at_def offset_us_def
        weekday_def toordinal_def time_of_def time_hms_def time_le_def time_lt_def)
  have tuesday_early: "is_within_business_hours_enhanced (datetime_at 738901 3 30 0 0)
        [0 \<mapsto> (time_hms 22 0 0, time_hms 6 0 0)]"
    by (simp add: is_within_business_hours_enhanced_def datetime_at_def offset_us_def
        weekday_def toordinal_def time_of_def time_hms_def time_le_def time_lt_def)
  have tuesday_morning: "\<not> is_within_business_hours_enhanced (datetime_at 738901 8 30 0 0)
        [0 \<mapsto> (time_hms 22 0 0, time_hms 6 0 0)]"
    by (simp add: is_within_business_hours_enhanced_def datetime_at_def offset_us_def
        weekday_def toordinal_def time_of_def time_hms_def time_le_def time_lt_def)
  from general monday_late tuesday_early tuesday_morning show ?thesis
    by blast
qed

section \<open>Properties of the day walk\<close>

lemma business_seconds_step_mono: "acc \<le> business_seconds_step e cal c acc"
  by (auto simp: business_seconds_step_def Let_def split: option.splits prod.splits)

lemma business_seconds_loop_mono: "acc \<le> business_seconds_loop e cal c acc"
proof (induction e cal c acc rule: business_seconds_loop.induct)
  case (1 e cal c acc)
  show ?case
  proof (cases "c < e")
    case True
    have "acc \<le> business_seconds_step e cal c acc"
      by (rule business_seconds_step_mono)
    also have "\<dots> \<le> business_seconds_loop e cal (replace_time (c + US_PER_DAY) 0 0 0 0)
                      (business_seconds_step e cal c acc)"
      using "1.IH" [OF True] .
    finally show ?thesis
      using True by (subst business_seconds_loop.simps) simp
  next
    case False
    then show ?thesis
      by (subst business_seconds_loop.simps) simp
  qed
qed

lemma int_total_seconds_nonneg: "0 \<le> td \<Longrightarrow> 0 \<le> int_total_seconds td"
  by (simp add: int_total_seconds_def)



section \<open>The default calendar\<close>










section \<open>Evaluation on concrete inputs\<close>

lemmas eval_defs = calculate_business_seconds_between_def business_seconds_loop.simps
  business_seconds_step_def datetime_at_def offset_us_def replace_time_def toordinal_def
  weekday_def time_hms_def time_lt_def time_le_def int_total_seconds_def Let_def


section \<open>The interpolator against the specification's forward fill\<close>

lemma inner_gaps_by_index:
  "xs \<noteq> [] \<Longrightarrow>
   map (\<lambda>i. (timestamp (xs ! i), timestamp (xs ! Suc i), observation.status (xs ! i) = ''active''))
       [0..<length xs - 1]
     @ [(timestamp (last xs), local_end, observation.status (last xs) = ''active'')]
   = spec_inner_gaps xs local_end"
proof (induction xs local_end rule: spec_inner_gaps.induct)
  case (1 local_end)
  then show ?case by simp
next
  case (2 x local_end)
  show ?case by simp
next
  case (3 x y rest local_end)
  have upt: "[0..<length (x # y # rest) - 1] = 0 # map Suc [0..<length (y # rest) - 1]"
    by (simp add: upt_conv_Cons map_Suc_upt del: upt_Suc)
  show ?case
    unfolding upt using "3.IH"
    by (simp add: comp_def del: upt_Suc)
qed

lemma gaps_by_index:
  assumes "xs \<noteq> []"
  shows "map (\<lambda>i. (if i = 0 then local_start else timestamp (xs ! (i - 1)),
                   timestamp (xs ! i),
                   (if i = 0 then observation.status (xs ! i)
                    else observation.status (xs ! (i - 1))) = ''active''))
       [0..<length xs]
     @ [(timestamp (last xs), local_end, observation.status (last xs) = ''active'')]
   = spec_gaps local_start local_end xs"
proof -
  from assms obtain x rest where xs: "xs = x # rest"
    by (cases xs) auto
  have upt: "[0..<length xs] = 0 # map Suc [0..<length xs - 1]"
    using xs by (simp add: upt_conv_Cons map_Suc_upt del: upt_Suc)
  show ?thesis
    unfolding upt using inner_gaps_by_index [OF assms, of local_end] xs
    by (simp add: comp_def del: upt_Suc)
qed

lemma fold_gaps_sums:
  "fold (\<lambda>(a, b, opn) totals.
           if opn then totals\<lparr>uptime := uptime totals + calculate_business_seconds_between a b cal\<rparr>
           else totals\<lparr>downtime := downtime totals + calculate_business_seconds_between a b cal\<rparr>)
        gaps totals
   = \<lparr>uptime = uptime totals + (\<Sum>(a, b, opn) \<leftarrow> gaps.
                  if opn then calculate_business_seconds_between a b cal else 0),
      downtime = downtime totals + (\<Sum>(a, b, opn) \<leftarrow> gaps.
                  if opn then 0 else calculate_business_seconds_between a b cal)\<rparr>"
  by (induction gaps arbitrary: totals) (auto simp: algebra_simps)

lemma interpolate_step_gap:
  "interpolate_step cal local_start xs i totals =
     (\<lambda>(a, b, opn) totals.
           if opn then totals\<lparr>uptime := uptime totals + calculate_business_seconds_between a b cal\<rparr>
           else totals\<lparr>downtime := downtime totals + calculate_business_seconds_between a b cal\<rparr>)
      (if i = 0 then local_start else timestamp (xs ! (i - 1)),
                   timestamp (xs ! i),
                   (if i = 0 then observation.status (xs ! i)
                    else observation.status (xs ! (i - 1))) = ''active'') totals"
  by (simp add: interpolate_step_def Let_def)

lemma interpolate_is_forward_fill:
  assumes "obs \<noteq> []"
  shows "interpolate_uptime_downtime to_local obs start_time end_time cal
     = spec_forward_fill (to_local start_time) (to_local end_time) cal obs"
proof (cases "length obs = 1")
  case True
  then obtain x where "obs = [x]"
    by (cases obs) auto
  then show ?thesis
    by (simp add: interpolate_uptime_downtime_def spec_forward_fill_def Let_def)
next
  case False
  let ?add = "(\<lambda>(a, b, opn) totals.
           if opn then totals\<lparr>uptime := uptime totals + calculate_business_seconds_between a b cal\<rparr>
           else totals\<lparr>downtime := downtime totals + calculate_business_seconds_between a b cal\<rparr>)"
  let ?gap = "(\<lambda>i. (if i = 0 then to_local start_time else timestamp (obs ! (i - 1)),
                   timestamp (obs ! i),
                   (if i = 0 then observation.status (obs ! i)
                    else observation.status (obs ! (i - 1))) = ''active''))"
  let ?trail = "(timestamp (last obs), to_local end_time, observation.status (last obs) = ''active'')"
  have step: "interpolate_step cal (to_local start_time) obs = (\<lambda>i. ?add (?gap i))"
    by (rule ext, rule ext) (simp add: interpolate_step_gap)
  have "interpolate_uptime_downtime to_local obs start_time end_time cal
      = ?add ?trail (fold (\<lambda>i. ?add (?gap i)) [0..<length obs] \<lparr>uptime = 0, downtime = 0\<rparr>)"
    using False assms
    by (simp add: interpolate_uptime_downtime_def Let_def step)
  also have "\<dots> = fold ?add (map ?gap [0..<length obs] @ [?trail]) \<lparr>uptime = 0, downtime = 0\<rparr>"
    by (simp add: fold_map comp_def)
  also have "\<dots> = fold ?add (spec_gaps (to_local start_time) (to_local end_time) obs)
                     \<lparr>uptime = 0, downtime = 0\<rparr>"
    by (simp only: gaps_by_index [OF assms])
  also have "\<dots> = spec_forward_fill (to_local start_time) (to_local end_time) cal obs"
    by (simp add: fold_gaps_sums spec_forward_fill_def)
  finally show ?thesis .
qed

lemma sort_key_Nil_iff: "(sort_key f xs = []) = (xs = [])"
  by (metis length_sort list.size(3) length_0_conv)

text \<open>
  C3. The metrics of a period are the specification's forward fill of the kept
  observations (converted to local time, restricted to open instants, sorted): with no
  observation the span's business seconds are all downtime; with one observation both
  gaps take its state; with more, the gap before the first observation takes the first
  state, each gap between two observations the earlier state, and the gap after the last
  observation the last state. The interpolator called on any non-empty list computes
  the same.
\<close>

theorem forward_fill_refinement:
  "calculate_period_metrics to_local table sid start_time end_time cal
     = spec_forward_fill (to_local start_time) (to_local end_time) cal
         (sort_key timestamp (local_status_data to_local
            (get_store_status_in_range table sid start_time end_time) cal))
   \<and> (obs \<noteq> [] \<longrightarrow> interpolate_uptime_downtime to_local obs start_time end_time cal
         = spec_forward_fill (to_local start_time) (to_local end_time) cal obs)"
proof -
  let ?rows = "get_store_status_in_range table sid start_time end_time"
  let ?kept = "local_status_data to_local ?rows cal"
  have empty_rows: "?rows = [] \<Longrightarrow> ?kept = []"
    by (simp add: local_status_data_def)
  have period: "calculate_period_metrics to_local table sid start_time end_time cal
     = spec_forward_fill (to_local start_time) (to_local end_time) cal (sort_key timestamp ?kept)"
  proof (cases "?kept = []")
    case True
    then show ?thesis
      by (simp add: calculate_period_metrics_def Let_def spec_forward_fill_def
          calculate_total_business_seconds_def)
  next
    case False
    then have rows: "?rows \<noteq> []"
      using empty_rows by blast
    from False have sorted_kept: "sort_key timestamp ?kept \<noteq> []"
      by (simp add: sort_key_Nil_iff)
    show ?thesis
      using False rows interpolate_is_forward_fill [OF sorted_kept]
      by (simp add: calculate_period_metrics_def Let_def)
  qed
  show ?thesis
    using period interpolate_is_forward_fill by blast
qed


theorem forward_fill_refinement_witness:
  "interpolate_uptime_downtime (\<lambda>t. t)
      [\<lparr>timestamp = datetime_at 738900 10 0 0 0, status = ''active'',
         utc_timestamp = datetime_at 738900 10 0 0 0\<rparr>,
       \<lparr>timestamp = datetime_at 738900 12 0 0 0, status = ''inactive'',
         utc_timestamp = datetime_at 738900 12 0 0 0\<rparr>]
      (datetime_at 738900 8 0 0 0) (datetime_at 738900 18 0 0 0)
      [0 \<mapsto> (time_hms 9 0 0, time_hms 17 0 0)]
   = \<lparr>uptime = 10800, downtime = 18000\<rparr>"
  using forward_fill_refinement [of "\<lambda>t. t" "[]" "''s''"
      "datetime_at 738900 8 0 0 0" "datetime_at 738900 18 0 0 0"
      "[0 \<mapsto> (time_hms 9 0 0, time_hms 17 0 0)]"
      "[\<lparr>timestamp = datetime_at 738900 10 0 0 0, status = ''active'',
         utc_timestamp = datetime_at 738900 10 0 0 0\<rparr>,
       \<lparr>timestamp = datetime_at 738900 12 0 0 0, status = ''inactive'',
         utc_timestamp = datetime_at 738900 12 0 0 0\<rparr>]"]
  by (simp add: spec_forward_fill_def eval_defs)

section \<open>Properties of the interval list\<close>

lemma toordinal_next_day: "toordinal (c + US_PER_DAY) = toordinal c + 1"
  by (simp add: toordinal_def)



lemma hms_us_less_day: "valid_time t \<Longrightarrow> hms_us t < US_PER_DAY"
  by (simp add: hms_us_def offset_us_def valid_time_def)

lemma replace_time_hms: "replace_time c (hour t) (minute t) (second t) 0 = toordinal c * US_PER_DAY + hms_us t"
  by (simp add: replace_time_def hms_us_def)

lemma replace_time_midnight: "replace_time c 0 0 0 0 = toordinal c * US_PER_DAY"
  by (simp add: replace_time_def offset_us_def)





















section \<open>The day walk against the interval list\<close>




lemma no_overnight_entry: "no_overnight cal \<Longrightarrow> cal d = Some (st, en) \<Longrightarrow> \<not> time_lt en st"
  by (auto simp: no_overnight_def not_time_le_iff [symmetric])



















section \<open>Properties of the report job\<close>



lemma query_after_commit: "query_report_status (commit_row db rid row) rid = Some row"
  by (simp add: query_report_status_def commit_row_def)





lemma status_history_commit:
  "status_history (commit_row db rid row) rid = status_history db rid @ [report_status.status row]"
  by (simp add: status_history_def commit_row_def split: option.splits)

lemma commit_row_other: "rid' \<noteq> rid \<Longrightarrow> commit_row db rid row rid' = db rid'"
  by (simp add: commit_row_def)

lemma mark_failed_history:
  "status_history (fst (mark_failed env db rid row e)) rid = status_history db rid
   \<or> status_history (fst (mark_failed env db rid row e)) rid = status_history db rid @ [''Failed'']"
  by (simp add: mark_failed_def Let_def status_history_commit split: option.splits)

lemma mark_failed_other: "rid' \<noteq> rid \<Longrightarrow> fst (mark_failed env db rid row e) rid' = db rid'"
  by (simp add: mark_failed_def Let_def commit_row_other split: option.splits)

lemma mark_failed_raises: "snd (mark_failed env db rid row e) \<noteq> None"
  by (simp add: mark_failed_def Let_def split: option.splits)

lemma mark_failed_not_complete:
  "status_history (fst (mark_failed env db rid row e)) rid \<noteq> status_history db rid @ [''Complete'']"
  using mark_failed_history [of env db rid row e] by auto


lemma generate_report_async_cases:
  assumes "query_report_status db rid = Some row"
  shows "(\<exists>r e. generate_report_async env db rid = mark_failed env db rid r e)
     \<or> (\<exists>current_time store_ids csv_path.
           get_max_timestamp env = Inr current_time
         \<and> get_all_store_ids env = Inr store_ids
         \<and> export_to_csv env (collect_report_data env store_ids current_time) rid = Inr csv_path
         \<and> generate_report_async env db rid =
             (commit_row db rid (row\<lparr>report_status.status := ''Complete'',
                completed_at := Some (utcnow env), file_path := Some csv_path\<rparr>), None))"
proof (cases "get_max_timestamp env")
  case (Inl e)
  then show ?thesis
    using assms by (auto simp: generate_report_async_def)
next
  case max: (Inr current_time)
  show ?thesis
  proof (cases "get_all_store_ids env")
    case (Inl e)
    then show ?thesis
      using assms max by (auto simp: generate_report_async_def)
  next
    case ids: (Inr store_ids)
    show ?thesis
    proof (cases "export_to_csv env (collect_report_data env store_ids current_time) rid")
      case (Inl e)
      then show ?thesis
        using assms max ids by (auto simp: generate_report_async_def)
    next
      case csv: (Inr csv_path)
      show ?thesis
      proof (cases "commit env (row\<lparr>report_status.status := ''Complete'',
                completed_at := Some (utcnow env), file_path := Some csv_path\<rparr>)")
        case None
        then show ?thesis
          using assms max ids csv by (auto simp: generate_report_async_def Let_def)
      next
        case (Some e)
        then show ?thesis
          using assms max ids csv by (auto simp: generate_report_async_def Let_def)
      qed
    qed
  qed
qed

lemma trigger_report_created:
  assumes "db rid = None" "trigger_report env db rid = Inr db'"
  shows "status_history db' rid = [''Running'']"
    and "\<exists>row. query_report_status db' rid = Some row"
    and "\<forall>rid'. rid' \<noteq> rid \<longrightarrow> db' rid' = db rid'"
  using assms
  by (auto simp: trigger_report_def Let_def status_history_def commit_row_def
      query_report_status_def split: option.splits)

text \<open>
  C7. A job created for a fresh report identifier has its status row created in state
  Running; over the whole run the row's committed statuses are Running alone, or Running
  then Complete, or Running then Failed (no row at all when the creating commit fails).
  Complete is reached only after a successful CSV export and records the completion time
  and the file path; Failed is reached only when the run ends with an exception. Rows
  of other reports are not touched.
\<close>

theorem report_lifecycle:
  assumes "db rid = None"
  shows "(\<forall>db'. trigger_report env db rid = Inr db' \<longrightarrow> status_history db' rid = [''Running''])
   \<and> status_history (run_job env db rid) rid
        \<in> {[], [''Running''], [''Running'', ''Complete''], [''Running'', ''Failed'']}
   \<and> (status_history (run_job env db rid) rid = []
        \<longrightarrow> (\<exists>e. trigger_report env db rid = Inl e))
   \<and> (status_history (run_job env db rid) rid = [''Running'', ''Complete'']
        \<longrightarrow> (\<exists>current_time store_ids csv_path row.
               get_max_timestamp env = Inr current_time
             \<and> get_all_store_ids env = Inr store_ids
             \<and> export_to_csv env (collect_report_data env store_ids current_time) rid
                  = Inr csv_path
             \<and> query_report_status (run_job env db rid) rid = Some row
             \<and> completed_at row = Some (utcnow env) \<and> file_path row = Some csv_path))
   \<and> (status_history (run_job env db rid) rid = [''Running'', ''Failed'']
        \<longrightarrow> (\<exists>db' e. trigger_report env db rid = Inr db'
               \<and> snd (generate_report_async env db' rid) = Some e))
   \<and> (\<forall>rid'. rid' \<noteq> rid \<longrightarrow> run_job env db rid rid' = db rid')"
proof (cases "trigger_report env db rid")
  case (Inl e)
  then have "run_job env db rid = db"
    by (simp add: run_job_def)
  then show ?thesis
    using Inl assms by (simp add: status_history_def)
next
  case (Inr db')
  note created = trigger_report_created [OF assms Inr]
  from created(2) obtain row where row: "query_report_status db' rid = Some row"
    by blast
  have run: "run_job env db rid = fst (generate_report_async env db' rid)"
    using Inr by (simp add: run_job_def)
  from generate_report_async_cases [OF row, of env]
  show ?thesis
  proof
    assume "\<exists>r e. generate_report_async env db' rid = mark_failed env db' rid r e"
    then obtain r e where failed: "generate_report_async env db' rid = mark_failed env db' rid r e"
      by blast
    have history: "status_history (run_job env db rid) rid = [''Running'']
        \<or> status_history (run_job env db rid) rid = [''Running'', ''Failed'']"
      using mark_failed_history [of env db' rid r e] created(1) by (simp add: run failed)
    have others: "\<forall>rid'. rid' \<noteq> rid \<longrightarrow> run_job env db rid rid' = db rid'"
      using created(3) by (simp add: run failed mark_failed_other)
    have raised: "\<exists>e. snd (generate_report_async env db' rid) = Some e"
      using mark_failed_raises [of env db' rid r e] by (simp add: failed)
    from history others raised Inr created(1) show ?thesis
      by auto
  next
    assume "\<exists>current_time store_ids csv_path.
           get_max_timestamp env = Inr current_time
         \<and> get_all_store_ids env = Inr store_ids
         \<and> export_to_csv env (collect_report_data env store_ids current_time) rid = Inr csv_path
         \<and> generate_report_async env db' rid =
             (commit_row db' rid (row\<lparr>report_status.status := ''Complete'',
                completed_at := Some (utcnow env), file_path := Some csv_path\<rparr>), None)"
    then obtain current_time store_ids csv_path where ok:
      "get_max_timestamp env = Inr current_time"
      "get_all_store_ids env = Inr store_ids"
      "export_to_csv env (collect_report_data env store_ids current_time) rid = Inr csv_path"
      "generate_report_async env db' rid =
             (commit_row db' rid (row\<lparr>report_status.status := ''Complete'',
                completed_at := Some (utcnow env), file_path := Some csv_path\<rparr>), None)"
      by blast
    let ?complete = "row\<lparr>report_status.status := ''Complete'',
                completed_at := Some (utcnow env), file_path := Some csv_path\<rparr>"
    have db'': "run_job env db rid = commit_row db' rid ?complete"
      by (simp add: run ok(4))
    have history: "status_history (run_job env db rid) rid = [''Running'', ''Complete'']"
      by (simp add: db'' status_history_commit created(1))
    have stored: "query_report_status (run_job env db rid) rid = Some ?complete"
      by (simp add: db'' query_after_commit)
    have others: "\<forall>rid'. rid' \<noteq> rid \<longrightarrow> run_job env db rid rid' = db rid'"
      using created(3) by (simp add: db'' commit_row_other)
    have details: "\<exists>current_time store_ids csv_path row.
               get_max_timestamp env = Inr current_time
             \<and> get_all_store_ids env = Inr store_ids
             \<and> export_to_csv env (collect_report_data env store_ids current_time) rid
                  = Inr csv_path
             \<and> query_report_status (run_job env db rid) rid = Some row
             \<and> completed_at row = Some (utcnow env) \<and> file_path row = Some csv_path"
      using ok(1-3) stored by (intro exI [of _ current_time] exI [of _ store_ids]
          exI [of _ csv_path] exI [of _ ?complete]) simp
    from history others details Inr created(1) show ?thesis
      by simp
  qed
qed


theorem report_lifecycle_witness:
  "status_history
     (run_job
        \<lparr>get_max_timestamp = Inr (datetime_at 738900 12 0 0 0),
         get_all_store_ids = Inr [''a'', ''b''],
         calculate_store_metrics = (\<lambda>sid current_time h d w.
            if sid = ''a'' then Inl (Failure ''bad data'') else Inr (default_row sid)),
         export_to_csv = (\<lambda>rows rid. Inl (Failure ''disk full'')),
         utcnow = datetime_at 738900 13 0 0 0,
         commit = (\<lambda>row. None)\<rparr>
        Map.empty ''r1'') ''r1''
   = [''Running'', ''Failed'']"
proof -
  let ?env = "\<lparr>get_max_timestamp = Inr (datetime_at 738900 12 0 0 0),
         get_all_store_ids = Inr [''a'', ''b''],
         calculate_store_metrics = (\<lambda>sid current_time h d w.
            if sid = ''a'' then Inl (Failure ''bad data'') else Inr (default_row sid)),
         export_to_csv = (\<lambda>rows rid. Inl (Failure ''disk full'')),
         utcnow = datetime_at 738900 13 0 0 0,
         commit = (\<lambda>row. None)\<rparr>"
  have fresh: "(Map.empty :: report_table) ''r1'' = None"
    by simp
  have not_complete: "export_to_csv ?env rows ''r1'' \<noteq> Inr csv_path" for rows csv_path
    by simp
  have created: "trigger_report ?env Map.empty ''r1'' \<noteq> Inl e" for e
    by (simp add: trigger_report_def)
  have changed: "status_history (run_job ?env Map.empty ''r1'') ''r1'' \<noteq> [''Running'']"
    by (simp add: run_job_def trigger_report_def generate_report_async_def mark_failed_def
        query_report_status_def commit_row_def status_history_def)
  from report_lifecycle [OF fresh, of ?env] not_complete created changed
  show ?thesis
    by auto
qed

section \<open>Properties of the time-zone helpers\<close>




section \<open>Interpolation without overnight intervals\<close>

lemma business_seconds_step_acc:
  "business_seconds_step e cal c acc = acc + business_seconds_step e cal c 0"
  by (simp add: business_seconds_step_def Let_def split: option.splits prod.splits)

lemma business_seconds_loop_acc:
  "business_seconds_loop e cal c acc = acc + business_seconds_loop e cal c 0"
proof (induction "nat (e - c)" arbitrary: c acc rule: less_induct)
  case less
  show ?case
  proof (cases "c < e")
    case True
    let ?next = "replace_time (c + US_PER_DAY) 0 0 0 0"
    have smaller: "nat (e - ?next) < nat (e - c)"
      using True next_midnight_after [of c] by simp
    have "business_seconds_loop e cal c acc
        = business_seconds_loop e cal ?next (business_seconds_step e cal c acc)"
      using True by (subst business_seconds_loop.simps) simp
    also have "\<dots> = business_seconds_step e cal c acc + business_seconds_loop e cal ?next 0"
      by (rule less.hyps [OF smaller])
    also have "\<dots> = acc + (business_seconds_step e cal c 0 + business_seconds_loop e cal ?next 0)"
      by (subst business_seconds_step_acc) simp
    also have "business_seconds_step e cal c 0 + business_seconds_loop e cal ?next 0
        = business_seconds_loop e cal ?next (business_seconds_step e cal c 0)"
      by (rule less.hyps [OF smaller, symmetric])
    also have "\<dots> = business_seconds_loop e cal c 0"
      using True by (subst (2) business_seconds_loop.simps) simp
    finally show ?thesis .
  next
    case False
    then show ?thesis
      by (subst (1 2) business_seconds_loop.simps) simp
  qed
qed

lemma business_seconds_loop_unfold:
  "business_seconds_loop e cal c 0 =
     (if c < e then business_seconds_step e cal c 0
                    + business_seconds_loop e cal (replace_time (c + US_PER_DAY) 0 0 0 0) 0
      else 0)"
proof (cases "c < e")
  case True
  have "business_seconds_loop e cal c 0
      = business_seconds_loop e cal (replace_time (c + US_PER_DAY) 0 0 0 0)
          (business_seconds_step e cal c 0)"
    using True by (subst business_seconds_loop.simps) simp
  also have "\<dots> = business_seconds_step e cal c 0
      + business_seconds_loop e cal (replace_time (c + US_PER_DAY) 0 0 0 0) 0"
    by (rule business_seconds_loop_acc)
  finally show ?thesis
    using True by simp
next
  case False
  then show ?thesis
    by (subst business_seconds_loop.simps) simp
qed

lemma toordinal_eqI:
  assumes "n * US_PER_DAY \<le> x" "x < n * US_PER_DAY + US_PER_DAY"
  shows "toordinal x = n"
proof -
  define r where "r = x - n * US_PER_DAY"
  have r: "0 \<le> r" "r < US_PER_DAY"
    using assms by (simp_all add: r_def)
  have "x = r + n * US_PER_DAY"
    by (simp add: r_def)
  then have "x div US_PER_DAY = r div US_PER_DAY + n"
    by simp
  moreover have "r div US_PER_DAY = 0"
    using r by (simp add: div_pos_pos_trivial)
  ultimately show ?thesis
    by (simp add: toordinal_def)
qed

lemma toordinal_bounds:
  "toordinal x * US_PER_DAY \<le> x \<and> x < toordinal x * US_PER_DAY + US_PER_DAY"
proof -
  have "x = (x div US_PER_DAY) * US_PER_DAY + x mod US_PER_DAY"
    by simp
  moreover have "0 \<le> x mod US_PER_DAY" "x mod US_PER_DAY < US_PER_DAY"
    by simp_all
  ultimately show ?thesis
    unfolding toordinal_def by linarith
qed

lemma next_midnight_eq:
  "replace_time (c + US_PER_DAY) 0 0 0 0 = toordinal c * US_PER_DAY + US_PER_DAY"
  by (simp add: replace_time_midnight toordinal_next_day algebra_simps)

text \<open>The step of a day without overnight interval, in closed form.\<close>

lemma step_plain:
  assumes "no_overnight cal" "cal (weekday c) = Some (st, en)"
  shows "business_seconds_step e cal c 0 =
     (if max c (toordinal c * US_PER_DAY + hms_us st) < min e (toordinal c * US_PER_DAY + hms_us en)
      then min e (toordinal c * US_PER_DAY + hms_us en)
             - max c (toordinal c * US_PER_DAY + hms_us st)
      else 0)"
proof -
  have plain: "time_lt en st = False"
    using no_overnight_entry [OF assms] by simp
  show ?thesis
    unfolding business_seconds_step_def Let_def assms(2)
    by (simp only: option.case prod.case plain if_False replace_time_hms add_0)
qed

lemma step_none: "cal (weekday c) = None \<Longrightarrow> business_seconds_step e cal c 0 = 0"
  by (simp add: business_seconds_step_def)

lemma step_same_end:
  assumes "no_overnight cal" "valid_calendar cal"
    "toordinal c * US_PER_DAY + US_PER_DAY \<le> b" "b \<le> e"
  shows "business_seconds_step e cal c 0 = business_seconds_step b cal c 0"
proof (cases "cal (weekday c)")
  case None
  then show ?thesis by (simp add: step_none)
next
  case (Some p)
  obtain st en where p: "p = (st, en)" by (cases p)
  have entry: "cal (weekday c) = Some (st, en)" using Some p by simp
  have "valid_time en" using assms(2) entry by (auto simp: valid_calendar_def)
  then have "hms_us en < US_PER_DAY" by (rule hms_us_less_day)
  then have "min e (toordinal c * US_PER_DAY + hms_us en) = toordinal c * US_PER_DAY + hms_us en"
    "min b (toordinal c * US_PER_DAY + hms_us en) = toordinal c * US_PER_DAY + hms_us en"
    using assms(3,4) by simp_all
  then show ?thesis
    by (simp only: step_plain [OF assms(1) entry])
qed

lemma step_split_same_day:
  assumes "no_overnight cal" "toordinal b = toordinal c" "c \<le> b" "b \<le> e"
  shows "business_seconds_step e cal c 0
     = business_seconds_step b cal c 0 + business_seconds_step e cal b 0"
proof (cases "cal (weekday c)")
  case None
  moreover have "weekday b = weekday c" using assms(2) by (simp add: weekday_def)
  ultimately show ?thesis by (simp add: step_none)
next
  case (Some p)
  obtain st en where p: "p = (st, en)" by (cases p)
  have entry: "cal (weekday c) = Some (st, en)" using Some p by simp
  have "weekday b = weekday c" using assms(2) by (simp add: weekday_def)
  then have entry_b: "cal (weekday b) = Some (st, en)" using entry by simp
  show ?thesis
    unfolding step_plain [OF assms(1) entry] step_plain [OF assms(1) entry_b] assms(2)
    using assms(3,4) by (simp add: max_def min_def)
qed

lemma walk_split:
  assumes "no_overnight cal" "valid_calendar cal"
  shows "c \<le> b \<Longrightarrow> b \<le> e \<Longrightarrow>
    business_seconds_loop e cal c 0
      = business_seconds_loop b cal c 0 + business_seconds_loop e cal b 0"
proof (induction "nat (b - c)" arbitrary: c rule: less_induct)
  case less
  note cb = less.prems(1) and be = less.prems(2)
  let ?next = "toordinal c * US_PER_DAY + US_PER_DAY"
  show ?case
  proof (cases "c = b")
    case True
    then show ?thesis
      by (simp add: business_seconds_loop_unfold [of b cal b])
  next
    case False
    with cb have lt: "c < b" by simp
    with be have lte: "c < e" by simp
    have next_after: "c < ?next"
      using toordinal_bounds [of c] by simp
    have whole: "business_seconds_loop e cal c 0
        = business_seconds_step e cal c 0 + business_seconds_loop e cal ?next 0"
      using lte by (subst business_seconds_loop_unfold) (simp add: next_midnight_eq)
    have first: "business_seconds_loop b cal c 0
        = business_seconds_step b cal c 0 + business_seconds_loop b cal ?next 0"
      using lt by (subst business_seconds_loop_unfold) (simp add: next_midnight_eq)
    show ?thesis
    proof (cases "?next \<le> b")
      case True
      have smaller: "nat (b - ?next) < nat (b - c)"
        using next_after lt by simp
      have "business_seconds_loop e cal ?next 0
          = business_seconds_loop b cal ?next 0 + business_seconds_loop e cal b 0"
        by (rule less.hyps [OF smaller True be])
      moreover have "business_seconds_step e cal c 0 = business_seconds_step b cal c 0"
        by (rule step_same_end [OF assms True be])
      ultimately show ?thesis
        by (simp add: whole first)
    next
      case False
      then have b_before: "b < ?next" by simp
      have same_day: "toordinal b = toordinal c"
        using toordinal_bounds [of c] cb b_before by (intro toordinal_eqI) simp_all
      have done_first: "business_seconds_loop b cal ?next 0 = 0"
        using b_before by (subst business_seconds_loop_unfold) simp
      have rest: "business_seconds_loop e cal b 0
          = (if b < e then business_seconds_step e cal b 0 else 0)
            + business_seconds_loop e cal ?next 0"
      proof (cases "b < e")
        case True
        then show ?thesis
          by (subst business_seconds_loop_unfold) (simp add: next_midnight_eq same_day)
      next
        case False
        with be have "e = b" by simp
        then have "e < ?next" using b_before by simp
        then have "business_seconds_loop e cal ?next 0 = 0"
          by (subst business_seconds_loop_unfold) simp
        moreover have "business_seconds_loop e cal b 0 = 0"
          using False by (subst business_seconds_loop_unfold) simp
        ultimately show ?thesis using False by simp
      qed
      have last_step: "(if b < e then business_seconds_step e cal b 0 else 0)
          = business_seconds_step e cal b 0"
      proof (cases "b < e")
        case True
        then show ?thesis by simp
      next
        case False
        with be have eb: "e = b" by simp
        have "business_seconds_step b cal b 0 = 0"
          by (auto simp: business_seconds_step_def Let_def split: option.splits)
        then show ?thesis using eb by simp
      qed
      show ?thesis
        unfolding whole first done_first rest last_step
        using step_split_same_day [OF assms(1) same_day cb be] by simp
    qed
  qed
qed


lemma calculate_business_seconds_between_nonneg_all:
  "0 \<le> calculate_business_seconds_between s e cal"
  using business_seconds_loop_mono [of 0 e cal s]
  by (simp add: calculate_business_seconds_between_def int_total_seconds_nonneg)

lemma between_as_loop:
  "calculate_business_seconds_between s e cal
     = business_seconds_loop e cal s 0 div US_PER_SECOND"
proof (cases "e \<le> s")
  case True
  then have "business_seconds_loop e cal s 0 = 0"
    by (subst business_seconds_loop_unfold) simp
  then show ?thesis
    using True by (simp add: calculate_business_seconds_between_def)
next
  case False
  then show ?thesis
    using business_seconds_loop_mono [of 0 e cal s]
    by (simp add: calculate_business_seconds_between_def int_total_seconds_def)
qed

lemma truncation_slack:
  fixes x y :: int
  assumes "0 \<le> x" "0 \<le> y"
  shows "x div US_PER_SECOND + y div US_PER_SECOND \<le> (x + y) div US_PER_SECOND
    \<and> (x + y) div US_PER_SECOND \<le> x div US_PER_SECOND + y div US_PER_SECOND + 1"
proof -
  have split: "(x + y) div US_PER_SECOND = x div US_PER_SECOND + y div US_PER_SECOND
      + (x mod US_PER_SECOND + y mod US_PER_SECOND) div US_PER_SECOND"
    by (rule div_add1_eq)
  have "0 \<le> x mod US_PER_SECOND + y mod US_PER_SECOND"
    "x mod US_PER_SECOND + y mod US_PER_SECOND < 2 * US_PER_SECOND"
    using pos_mod_bound [of US_PER_SECOND x] pos_mod_bound [of US_PER_SECOND y]
      pos_mod_sign [of US_PER_SECOND x] pos_mod_sign [of US_PER_SECOND y]
    by simp_all
  then have low: "0 \<le> (x mod US_PER_SECOND + y mod US_PER_SECOND) div US_PER_SECOND"
    and "x mod US_PER_SECOND + y mod US_PER_SECOND \<le> 1999999"
    by (simp_all add: pos_imp_zdiv_nonneg_iff)
  then have "(x mod US_PER_SECOND + y mod US_PER_SECOND) div US_PER_SECOND
      \<le> 1999999 div US_PER_SECOND"
    by (intro zdiv_mono1) simp_all
  then have high: "(x mod US_PER_SECOND + y mod US_PER_SECOND) div US_PER_SECOND \<le> 1"
    by simp
  from split low high show ?thesis
    by linarith
qed

lemma between_split:
  assumes "no_overnight cal" "valid_calendar cal" "a \<le> b" "b \<le> c"
  shows "calculate_business_seconds_between a b cal + calculate_business_seconds_between b c cal
           \<le> calculate_business_seconds_between a c cal
    \<and> calculate_business_seconds_between a c cal
           \<le> calculate_business_seconds_between a b cal
               + calculate_business_seconds_between b c cal + 1"
  unfolding between_as_loop walk_split [OF assms]
  using business_seconds_loop_mono [of 0 b cal a] business_seconds_loop_mono [of 0 c cal b]
  by (intro truncation_slack) simp_all

lemma inner_gaps_total:
  assumes "no_overnight cal" "valid_calendar cal"
  shows "sorted (map timestamp (x # rest)) \<Longrightarrow> \<forall>ob \<in> set (x # rest). timestamp ob \<le> local_end \<Longrightarrow>
    (\<Sum>(a, b, opn) \<leftarrow> spec_inner_gaps (x # rest) local_end.
        calculate_business_seconds_between a b cal)
      \<le> calculate_business_seconds_between (timestamp x) local_end cal
    \<and> calculate_business_seconds_between (timestamp x) local_end cal
      \<le> (\<Sum>(a, b, opn) \<leftarrow> spec_inner_gaps (x # rest) local_end.
            calculate_business_seconds_between a b cal) + int (length rest)"
proof (induction rest arbitrary: x)
  case Nil
  show ?case by simp
next
  case (Cons y rest)
  have order: "timestamp x \<le> timestamp y" "timestamp y \<le> local_end"
    using Cons.prems by simp_all
  have tail: "sorted (map timestamp (y # rest))" "\<forall>ob \<in> set (y # rest). timestamp ob \<le> local_end"
    using Cons.prems by simp_all
  from Cons.IH [OF tail] between_split [OF assms order]
  show ?case
    by simp
qed

lemma gaps_total:
  assumes "no_overnight cal" "valid_calendar cal" "sorted (map timestamp obs)"
    "\<forall>ob \<in> set obs. local_start \<le> timestamp ob \<and> timestamp ob \<le> local_end"
  shows "(\<Sum>(a, b, opn) \<leftarrow> spec_gaps local_start local_end obs.
        calculate_business_seconds_between a b cal)
      \<le> calculate_business_seconds_between local_start local_end cal
    \<and> calculate_business_seconds_between local_start local_end cal
      \<le> (\<Sum>(a, b, opn) \<leftarrow> spec_gaps local_start local_end obs.
            calculate_business_seconds_between a b cal) + int (length obs)"
proof (cases obs)
  case Nil
  then show ?thesis by simp
next
  case (Cons x rest)
  have order: "local_start \<le> timestamp x" "timestamp x \<le> local_end"
    using assms(4) Cons by simp_all
  have tail: "sorted (map timestamp (x # rest))" "\<forall>ob \<in> set (x # rest). timestamp ob \<le> local_end"
    using assms(3,4) Cons by simp_all
  from inner_gaps_total [OF assms(1,2) tail] between_split [OF assms(1,2) order]
  show ?thesis
    unfolding Cons by simp
qed

lemma forward_fill_total:
  "uptime (spec_forward_fill local_start local_end cal obs)
     + downtime (spec_forward_fill local_start local_end cal obs)
   = (\<Sum>(a, b, opn) \<leftarrow> spec_gaps local_start local_end obs.
        calculate_business_seconds_between a b cal)"
proof -
  have "(\<Sum>(a, b, opn) \<leftarrow> gaps. if opn then calculate_business_seconds_between a b cal else 0)
      + (\<Sum>(a, b, opn) \<leftarrow> gaps. if opn then 0 else calculate_business_seconds_between a b cal)
      = (\<Sum>(a, b, opn) \<leftarrow> gaps. calculate_business_seconds_between a b cal)"
    for gaps :: "(datetime \<times> datetime \<times> bool) list"
    by (induction gaps) auto
  then show ?thesis
    by (simp add: spec_forward_fill_def)
qed

lemma forward_fill_nonneg:
  "0 \<le> uptime (spec_forward_fill local_start local_end cal obs)
   \<and> 0 \<le> downtime (spec_forward_fill local_start local_end cal obs)"
proof -
  have "0 \<le> (\<Sum>(a, b, opn) \<leftarrow> gaps.
          if opn then calculate_business_seconds_between a b cal else 0)
      \<and> 0 \<le> (\<Sum>(a, b, opn) \<leftarrow> gaps.
          if opn then 0 else calculate_business_seconds_between a b cal)"
    for gaps :: "(datetime \<times> datetime \<times> bool) list"
    using calculate_business_seconds_between_nonneg_all
    by (induction gaps) (auto intro: add_nonneg_nonneg)
  then show ?thesis
    by (simp add: spec_forward_fill_def)
qed


text \<open>
  For a calendar without overnight intervals the day walk is additive over adjoining
  spans before truncation. So, for observations in chronological order inside the span,
  uptime and downtime are not negative and add up to the span's business seconds, less
  at most one second for each observation (every gap is truncated on its own). The
  lemma after it shows one such lost second.
\<close>

theorem interpolation_partitions_without_overnight:
  assumes "no_overnight cal" "valid_calendar cal" "obs \<noteq> []"
    "sorted (map timestamp obs)"
    "\<forall>ob \<in> set obs. to_local start_time \<le> timestamp ob \<and> timestamp ob \<le> to_local end_time"
  shows "0 \<le> uptime (interpolate_uptime_downtime to_local obs start_time end_time cal)
    \<and> 0 \<le> downtime (interpolate_uptime_downtime to_local obs start_time end_time cal)
    \<and> uptime (interpolate_uptime_downtime to_local obs start_time end_time cal)
        + downtime (interpolate_uptime_downtime to_local obs start_time end_time cal)
        \<le> calculate_business_seconds_between (to_local start_time) (to_local end_time) cal
    \<and> calculate_business_seconds_between (to_local start_time) (to_local end_time) cal
        \<le> uptime (interpolate_uptime_downtime to_local obs start_time end_time cal)
          + downtime (interpolate_uptime_downtime to_local obs start_time end_time cal)
          + int (length obs)"
  unfolding interpolate_is_forward_fill [OF assms(3)]
  using forward_fill_nonneg [of "to_local start_time" "to_local end_time" cal obs]
    gaps_total [OF assms(1,2,4,5)]
  by (simp add: forward_fill_total)

lemma interpolation_truncates_each_gap:
  "uptime (interpolate_uptime_downtime (\<lambda>t. t)
      [\<lparr>timestamp = datetime_at 738900 10 0 0 500000, status = ''active'',
         utc_timestamp = datetime_at 738900 10 0 0 500000\<rparr>]
      (datetime_at 738900 8 0 0 0) (datetime_at 738900 18 0 0 0)
      [0 \<mapsto> (time_hms 9 0 0, time_hms 17 0 0)]) = 28799
   \<and> calculate_business_seconds_between (datetime_at 738900 8 0 0 0)
        (datetime_at 738900 18 0 0 0) [0 \<mapsto> (time_hms 9 0 0, time_hms 17 0 0)] = 28800"
  by (simp add: interpolate_uptime_downtime_def eval_defs)

section \<open>Interpolation across an overnight interval\<close>

text \<open>
  C1 at a failing input. Calendar: Monday 22:00 to 06:00 only. Window: Monday 08:00 to
  Tuesday 08:00 (2024-01-15 and 2024-01-16), one observation, active, at Tuesday 03:00,
  which the open test keeps (it lies in the hours carried over from Monday). The window
  holds 28800 business seconds, but the day walk started at Tuesday 03:00 looks at
  Tuesday's entry only and counts nothing up to 06:00, so uptime and downtime add up to
  18000.
\<close>

theorem interpolation_loses_carried_over_hours:
  "is_within_business_hours_enhanced (datetime_at 738901 3 0 0 0)
      [0 \<mapsto> (time_hms 22 0 0, time_hms 6 0 0)]
   \<and> calculate_period_metrics (\<lambda>t. t)
        [\<lparr>store_status.store_id = ''s'', timestamp_utc = datetime_at 738901 3 0 0 0,
           store_status.status = ''active''\<rparr>]
        ''s'' (datetime_at 738900 8 0 0 0) (datetime_at 738901 8 0 0 0)
        [0 \<mapsto> (time_hms 22 0 0, time_hms 6 0 0)]
      = \<lparr>uptime = 18000, downtime = 0\<rparr>
   \<and> calculate_business_seconds_between (datetime_at 738900 8 0 0 0)
        (datetime_at 738901 8 0 0 0) [0 \<mapsto> (time_hms 22 0 0, time_hms 6 0 0)] = 28800
   \<and> calculate_business_seconds_between (datetime_at 738901 3 0 0 0)
        (datetime_at 738901 8 0 0 0) [0 \<mapsto> (time_hms 22 0 0, time_hms 6 0 0)] = 0"
proof -
  let ?cal = "[0 \<mapsto> (time_hms 22 0 0, time_hms 6 0 0)] :: calendar"
  have open_at_three: "is_within_business_hours_enhanced (datetime_at 738901 3 0 0 0) ?cal"
    by (simp add: is_within_business_hours_enhanced_def datetime_at_def offset_us_def
        weekday_def toordinal_def time_of_def time_hms_def time_le_def time_lt_def)
  have before: "calculate_business_seconds_between (datetime_at 738900 8 0 0 0)
      (datetime_at 738901 3 0 0 0) ?cal = 18000"
    by (simp add: eval_defs)
  have after: "calculate_business_seconds_between (datetime_at 738901 3 0 0 0)
      (datetime_at 738901 8 0 0 0) ?cal = 0"
    by (simp add: eval_defs)
  have whole: "calculate_business_seconds_between (datetime_at 738900 8 0 0 0)
      (datetime_at 738901 8 0 0 0) ?cal = 28800"
    by (simp add: eval_defs)
  have in_range: "datetime_at 738900 8 0 0 0 \<le> datetime_at 738901 3 0 0 0"
    "datetime_at 738901 3 0 0 0 \<le> datetime_at 738901 8 0 0 0"
    by (simp_all add: datetime_at_def offset_us_def)
  have metrics: "calculate_period_metrics (\<lambda>t. t)
        [\<lparr>store_status.store_id = ''s'', timestamp_utc = datetime_at 738901 3 0 0 0,
           store_status.status = ''active''\<rparr>]
        ''s'' (datetime_at 738900 8 0 0 0) (datetime_at 738901 8 0 0 0) ?cal
      = \<lparr>uptime = 18000, downtime = 0\<rparr>"
    by (simp add: calculate_period_metrics_def get_store_status_in_range_def in_range
        local_status_data_def open_at_three interpolate_uptime_downtime_def before after Let_def)
  from open_at_three metrics whole after show ?thesis
    by blast
qed

end
